theory Spec2Isabelle
  imports Complex_Main "HOL-Library.Sublist"
begin

section \<open>Text: Python strings as lists of code points\<close>

text \<open>
  A Python \<open>str\<close> is a sequence of Unicode code points, and the patterns of
  \<open>src/main.py\<close> mention U+2019, so a character is its code point (a \<open>nat\<close>) and a
  string is a list of them. \<open>u\<close> reads an ASCII literal.
\<close>

type_synonym ustr = "nat list"

definition u :: "string \<Rightarrow> ustr" where
  "u s = map of_char s"

text \<open>
  The parts of Python's Unicode database and of the \<open>re\<close> module that the source relies on
  and that are not part of the repository: which code points beyond ASCII are decimal
  digits (\<open>\d\<close>), which are alphanumeric (\<open>\w\<close>), and how \<open>re.sub\<close> expands a
  replacement template that contains a backslash (\<open>None\<close>: \<open>re.error\<close>). They are taken as
  parameters; on ASCII the classes are written out below.
\<close>

record unicode_db =
  decimal :: "nat \<Rightarrow> bool"
  alnum :: "nat \<Rightarrow> bool"
  template :: "ustr \<Rightarrow> ustr option"

text \<open>\<open>\s\<close> on \<open>str\<close> patterns, which is also what \<open>str.strip()\<close> removes.\<close>

definition is_space :: "nat \<Rightarrow> bool" where
  "is_space c = ((9 \<le> c \<and> c \<le> 13) \<or> (28 \<le> c \<and> c \<le> 32) \<or> c = 133 \<or> c = 160
     \<or> c = 5760 \<or> (8192 \<le> c \<and> c \<le> 8202) \<or> c = 8232 \<or> c = 8233 \<or> c = 8239
     \<or> c = 8287 \<or> c = 12288)"

text \<open>\<open>[A-Za-z]\<close>\<close>

definition is_alpha :: "nat \<Rightarrow> bool" where
  "is_alpha c = ((65 \<le> c \<and> c \<le> 90) \<or> (97 \<le> c \<and> c \<le> 122))"

text \<open>\<open>\d\<close>\<close>

definition is_digit :: "unicode_db \<Rightarrow> nat \<Rightarrow> bool" where
  "is_digit db c = (if c < 128 then 48 \<le> c \<and> c \<le> 57 else decimal db c)"

text \<open>\<open>\w\<close>\<close>

definition is_word :: "unicode_db \<Rightarrow> nat \<Rightarrow> bool" where
  "is_word db c =
     (if c < 128 then is_alpha c \<or> (48 \<le> c \<and> c \<le> 57) \<or> c = 95 else alnum db c)"

text \<open>\<open>['\u2019\s]\<close>\<close>

definition is_possessive :: "nat \<Rightarrow> bool" where
  "is_possessive c = (c = 39 \<or> c = 8217 \<or> is_space c)"

text \<open>\<open>str.strip()\<close>\<close>

definition strip :: "ustr \<Rightarrow> ustr" where
  "strip s = rev (dropWhile is_space (rev (dropWhile is_space s)))"

text \<open>\<open>"\n".join(parts)\<close>\<close>

fun join_nl :: "ustr list \<Rightarrow> ustr" where
  "join_nl [] = []"
| "join_nl [p] = p"
| "join_nl (p # q # ps) = p @ 10 # join_nl (q # ps)"


section \<open>Regular expressions of the source\<close>

text \<open>
  Every pattern compiled by \<open>_compile_regex_patterns\<close> is a sequence of greedy repeats of
  a single-character class: \<open>(p, lo, hi)\<close> matches between \<open>lo\<close> and \<open>hi\<close> characters of
  class \<open>p\<close> (\<open>None\<close>: no upper bound), a literal character is \<open>(=c, 1, 1)\<close>.
  \<open>match_items\<close> is the backtracking matcher of \<open>re\<close>: a repeat first takes as many
  characters as it can and gives them back one at a time until the rest of the pattern
  matches; the result is what follows the match.
\<close>

type_synonym item = "(nat \<Rightarrow> bool) \<times> nat \<times> nat option"

fun backoff :: "(ustr \<Rightarrow> ustr option) \<Rightarrow> ustr \<Rightarrow> nat \<Rightarrow> nat \<Rightarrow> ustr option" where
  "backoff k s lo 0 = (if lo = 0 then k s else None)"
| "backoff k s lo (Suc m) =
     (if Suc m < lo then None
      else case k (drop (Suc m) s) of Some r \<Rightarrow> Some r | None \<Rightarrow> backoff k s lo m)"

fun match_items :: "item list \<Rightarrow> ustr \<Rightarrow> ustr option" where
  "match_items [] s = Some s"
| "match_items ((p, lo, hi) # its) s =
     backoff (match_items its) s lo
       (case hi of None \<Rightarrow> length (takeWhile p s)
                 | Some h \<Rightarrow> min (length (takeWhile p s)) h)"

text \<open>
  \<open>pattern.sub(repl, text)\<close>: the leftmost match is replaced and the scan goes on behind
  it. No pattern of the source matches the empty string, so the branch for an empty match
  (the replacement, then the next character) is never taken by them.
\<close>

fun re_sub :: "item list \<Rightarrow> ustr \<Rightarrow> ustr \<Rightarrow> ustr" where
  "re_sub pat repl [] = []"
| "re_sub pat repl (c # cs) =
     (case match_items pat (c # cs) of
        None \<Rightarrow> c # re_sub pat repl cs
      | Some rest \<Rightarrow>
          if length rest < length (c # cs) then repl @ re_sub pat repl rest
          else repl @ c # re_sub pat repl cs)"

definition lit :: "string \<Rightarrow> item list" where
  "lit s = map (\<lambda>c. ((\<lambda>x. x = of_char c), 1, Some 1)) s"

definition plus :: "(nat \<Rightarrow> bool) \<Rightarrow> item list" where
  "plus p = [(p, 1, None)]"

definition star :: "(nat \<Rightarrow> bool) \<Rightarrow> item list" where
  "star p = [(p, 0, None)]"

definition rep :: "(nat \<Rightarrow> bool) \<Rightarrow> nat \<Rightarrow> nat \<Rightarrow> item list" where
  "rep p lo hi = [(p, lo, Some hi)]"

text \<open>\<open>Page \d+ of \d+\<close>\<close>

definition page_number_pattern :: "unicode_db \<Rightarrow> item list" where
  "page_number_pattern db =
     lit ''Page '' @ plus (is_digit db) @ lit '' of '' @ plus (is_digit db)"

text \<open>\<open>[A-Za-z]+\s+\d{1,2}\s*,\s*\d{3}\s*\d\<close>, the date of the header and of the title\<close>

definition date_items :: "unicode_db \<Rightarrow> item list" where
  "date_items db =
     plus is_alpha @ plus is_space @ rep (is_digit db) 1 2 @ star is_space @ lit '','' @
     star is_space @ rep (is_digit db) 3 3 @ star is_space @ rep (is_digit db) 1 1"

text \<open>\<open>Chair\s+Powell\s*['\u2019\s]*s\s+Press\s+Conference\<close>\<close>

definition chair_items :: "item list" where
  "chair_items =
     lit ''Chair'' @ plus is_space @ lit ''Powell'' @ star is_space @ star is_possessive @
     lit ''s'' @ plus is_space @ lit ''Press'' @ plus is_space @ lit ''Conference''"

definition header_pattern :: "unicode_db \<Rightarrow> item list" where
  "header_pattern db =
     date_items db @ plus is_space @ chair_items @ plus is_space @ lit ''FINAL''"

definition transcript_pattern :: "item list" where
  "transcript_pattern =
     lit ''Transcript'' @ plus is_space @ lit ''of'' @ plus is_space @ chair_items"

definition transcript_with_date_pattern :: "unicode_db \<Rightarrow> item list" where
  "transcript_with_date_pattern db = transcript_pattern @ plus is_space @ date_items db"

text \<open>\<open>\s+\<close>\<close>

definition whitespace_pattern :: "item list" where
  "whitespace_pattern = plus is_space"


section \<open>The cleaner\<close>

text \<open>
  \<open>_tag_names_in_text\<close>: for each name in turn, if it occurs in the text, every match of
  \<open>\bname\b\<close> is replaced by the template \<open><NAME>name</NAME>\<close>. \<open>prev\<close> is the character
  before the position scanned (\<open>None\<close> at the start of the text). The names come from
  \<open>_load_names_from_file\<close>, which never yields an empty one; the model leaves the text as
  it is for the empty name.
\<close>

definition boundary :: "unicode_db \<Rightarrow> nat option \<Rightarrow> nat option \<Rightarrow> bool" where
  "boundary db a b =
     ((case a of None \<Rightarrow> False | Some c \<Rightarrow> is_word db c) \<noteq>
      (case b of None \<Rightarrow> False | Some c \<Rightarrow> is_word db c))"

definition name_at :: "unicode_db \<Rightarrow> ustr \<Rightarrow> nat option \<Rightarrow> ustr \<Rightarrow> bool" where
  "name_at db name prev s =
     (name \<noteq> [] \<and> take (length name) s = name \<and>
      boundary db prev (Some (hd name)) \<and>
      boundary db (Some (last name))
        (case drop (length name) s of [] \<Rightarrow> None | d # ds \<Rightarrow> Some d))"

function tag_scan :: "unicode_db \<Rightarrow> ustr \<Rightarrow> ustr \<Rightarrow> nat option \<Rightarrow> ustr \<Rightarrow> ustr" where
  "tag_scan db name repl prev [] = []"
| "tag_scan db name repl prev (c # cs) =
     (if name_at db name prev (c # cs)
      then repl @ tag_scan db name repl (Some (last name)) (drop (length name) (c # cs))
      else c # tag_scan db name repl (Some c) cs)"
  by pat_completeness auto
termination
  by (relation "measure (\<lambda>(db, name, repl, prev, s). length s)") (auto simp: name_at_def)

text \<open>\<open>name in text\<close>\<close>

fun is_infix :: "ustr \<Rightarrow> ustr \<Rightarrow> bool" where
  "is_infix name [] = (name = [])"
| "is_infix name (c # cs) = (take (length name) (c # cs) = name \<or> is_infix name cs)"

definition expand :: "unicode_db \<Rightarrow> ustr \<Rightarrow> ustr option" where
  "expand db r = (if 92 \<in> set r then template db r else Some r)"

datatype exn = ScraperError | ValueError | ReError

fun tag_names_in_text :: "unicode_db \<Rightarrow> ustr list \<Rightarrow> ustr \<Rightarrow> exn + ustr" where
  "tag_names_in_text db [] t = Inr t"
| "tag_names_in_text db (name # names) t =
     (if is_infix name t then
        (case expand db (u ''<NAME>'' @ name @ u ''</NAME>'') of
           None \<Rightarrow> Inl ReError
         | Some repl \<Rightarrow> tag_names_in_text db names (tag_scan db name repl None t))
      else tag_names_in_text db names t)"

text \<open>Lines 186 to 190 of \<open>clean_extracted_text\<close>: the five substitutions, in order.\<close>

definition structural_steps :: "unicode_db \<Rightarrow> ustr \<Rightarrow> ustr" where
  "structural_steps db t =
     re_sub whitespace_pattern (u '' '')
       (re_sub transcript_pattern []
         (re_sub (transcript_with_date_pattern db) []
           (re_sub (header_pattern db) []
             (re_sub (page_number_pattern db) [] t))))"

definition clean_extracted_text :: "unicode_db \<Rightarrow> ustr list \<Rightarrow> ustr \<Rightarrow> exn + ustr" where
  "clean_extracted_text db names t =
     (if t = [] then Inr t
      else case tag_names_in_text db names (structural_steps db t) of
             Inl e \<Rightarrow> Inl e
           | Inr t' \<Rightarrow> Inr (strip t'))"


section \<open>Configuration and the world outside\<close>

text \<open>\<open>ScraperConfig\<close> of \<open>src/config.py\<close>; the two \<open>float\<close> delays are only handed to
  \<open>time.sleep\<close>, so a rational stands for them.\<close>

record ScraperConfig =
  base_url :: ustr
  output_dir :: ustr
  request_timeout :: int
  delay :: rat
  max_retries :: int
  retry_delay :: rat
  log_level :: ustr
  log_file :: ustr
  user_agent :: ustr

definition DEFAULT_CONFIG :: ScraperConfig where
  "DEFAULT_CONFIG = \<lparr>
     base_url = u ''https://www.federalreserve.gov/mediacenter/files/'',
     output_dir = u ''fed_press_conferences'',
     request_timeout = 30,
     delay = 1,
     max_retries = 3,
     retry_delay = 2,
     log_level = u ''INFO'',
     log_file = u ''scraper.log'',
     user_agent =
       u ''FED-Press-Conference-Scraper/1.0 (+https://github.com/<yourusername>/fed-scraper)''\<rparr>"

text \<open>
  What \<open>pdfplumber\<close> makes of the downloaded bytes: the document does not open, or it has
  pages, and \<open>page.extract_text()\<close> returns a string, returns \<open>None\<close>, or raises.
\<close>

datatype page = PageText ustr | PageNone | PageRaises

datatype pdf = Unreadable | Pages "page list"

text \<open>What \<open>session.get\<close> does: a response with a status code and a body, or a
  \<open>requests.exceptions.RequestException\<close>.\<close>

datatype response = Http int pdf | RequestException

text \<open>What \<open>open(path, "w")\<close> followed by \<open>f.write\<close> does at a path: it works, the file
  cannot be opened, or the write fails after so many characters have reached the file.\<close>

datatype fault = NoFault | OpenFails | WriteFails nat

datatype event = Get ustr | Sleep rat | Write ustr

text \<open>
  The world: the files by path, the requests, sleeps and writes so far, the remote host
  (its answer to the \<open>n\<close>-th request of the run, for a URL), the faults of the file system,
  and the lines of \<open>press_conference_dates.txt\<close> (\<open>None\<close>: the file cannot be read).
  The logger is left out: it writes to \<open>scraper.log\<close> and the console only.
\<close>

record world =
  files :: "ustr \<rightharpoonup> ustr"
  trace :: "event list"
  net :: "nat \<Rightarrow> ustr \<Rightarrow> response"
  fault :: "ustr \<Rightarrow> fault"
  dates_file :: "ustr list option"

fun is_get :: "event \<Rightarrow> bool" where
  "is_get (Get url) = True"
| "is_get _ = False"

definition n_gets :: "world \<Rightarrow> nat" where
  "n_gets w = length (filter is_get (trace w))"

definition http_get :: "ustr \<Rightarrow> world \<Rightarrow> response \<times> world" where
  "http_get url w = (net w (n_gets w) url, w\<lparr>trace := trace w @ [Get url]\<rparr>)"

text \<open>\<open>time.sleep(d)\<close> raises \<open>ValueError\<close> for a negative \<open>d\<close>.\<close>

definition sleep :: "rat \<Rightarrow> world \<Rightarrow> (exn + unit) \<times> world" where
  "sleep d w = (if d < 0 then (Inl ValueError, w) else (Inr (), w\<lparr>trace := trace w @ [Sleep d]\<rparr>))"

definition pdf_url :: "ScraperConfig \<Rightarrow> ustr \<Rightarrow> ustr" where
  "pdf_url cfg date_str = base_url cfg @ u ''FOMCpresconf'' @ date_str @ u ''.pdf''"

text \<open>\<open>self.output_dir / f"FOMCpresconf{date_str}.txt"\<close>\<close>

definition text_path :: "ScraperConfig \<Rightarrow> ustr \<Rightarrow> ustr" where
  "text_path cfg date_str = output_dir cfg @ u ''/FOMCpresconf'' @ date_str @ u ''.txt''"


section \<open>The scraper\<close>

text \<open>
  The loop of \<open>download_pdf\<close>, \<open>for attempt in range(max_retries)\<close>, with \<open>attempt\<close> the
  loop variable and the second number the iterations still to run.
\<close>

fun download_attempts ::
  "ScraperConfig \<Rightarrow> ustr \<Rightarrow> nat \<Rightarrow> nat \<Rightarrow> world \<Rightarrow> (exn + pdf option) \<times> world" where
  "download_attempts cfg url attempt 0 w = (Inr None, w)"
| "download_attempts cfg url attempt (Suc k) w =
     (case http_get url w of
        (Http code body, w1) \<Rightarrow>
          if code = 200 then (Inr (Some body), w1)
          else if code = 404 then (Inr None, w1)
          else download_attempts cfg url (Suc attempt) k w1
      | (RequestException, w1) \<Rightarrow>
          if int attempt < max_retries cfg - 1 then
            (case sleep (retry_delay cfg) w1 of
               (Inl e, w2) \<Rightarrow> (Inl e, w2)
             | (Inr _, w2) \<Rightarrow> download_attempts cfg url (Suc attempt) k w2)
          else (Inr None, w1))"

definition download_pdf :: "ScraperConfig \<Rightarrow> ustr \<Rightarrow> world \<Rightarrow> (exn + pdf option) \<times> world" where
  "download_pdf cfg date_str w =
     download_attempts cfg (pdf_url cfg date_str) 0 (nat (max_retries cfg)) w"

text \<open>The page loop of \<open>extract_text_from_pdf\<close>: one step, then the fold over the pages.\<close>

fun add_page :: "ustr list \<Rightarrow> page \<Rightarrow> ustr list" where
  "add_page text_parts (PageText t) = (if t \<noteq> [] then text_parts @ [t] else text_parts)"
| "add_page text_parts PageNone = text_parts"
| "add_page text_parts PageRaises = text_parts"

definition extract_text_from_pdf :: "pdf \<Rightarrow> exn + ustr" where
  "extract_text_from_pdf pdf_content =
     (case pdf_content of
        Unreadable \<Rightarrow> Inl ScraperError
      | Pages ps \<Rightarrow>
          let text_parts = foldl add_page [] ps
          in if text_parts = [] then Inl ScraperError
             else Inr (strip (join_nl text_parts)))"

definition save_text_file :: "ScraperConfig \<Rightarrow> ustr \<Rightarrow> ustr \<Rightarrow> world \<Rightarrow> bool \<times> world" where
  "save_text_file cfg date_str text_content w =
     (if strip text_content = [] then (False, w)
      else let filepath = text_path cfg date_str in
        case fault w filepath of
          OpenFails \<Rightarrow> (False, w)
        | WriteFails n \<Rightarrow>
            (False, w\<lparr>files := (files w)(filepath \<mapsto> take n text_content),
                       trace := trace w @ [Write filepath]\<rparr>)
        | NoFault \<Rightarrow>
            (True, w\<lparr>files := (files w)(filepath \<mapsto> text_content),
                      trace := trace w @ [Write filepath]\<rparr>))"

definition process_date :: "ScraperConfig \<Rightarrow> ustr \<Rightarrow> world \<Rightarrow> bool \<times> world" where
  "process_date cfg date_str w =
     (if files w (text_path cfg date_str) \<noteq> None then (True, w)
      else case download_pdf cfg date_str w of
             (Inl e, w1) \<Rightarrow> (False, w1)
           | (Inr None, w1) \<Rightarrow> (False, w1)
           | (Inr (Some pdf_content), w1) \<Rightarrow>
               (case extract_text_from_pdf pdf_content of
                  Inl e \<Rightarrow> (False, w1)
                | Inr text_content \<Rightarrow>
                    if text_content = [] then (False, w1)
                    else save_text_file cfg date_str text_content w1))"

text \<open>\<open>load_dates_from_file\<close>: the stripped non-blank lines of the date file.\<close>

definition load_dates_from_file :: "world \<Rightarrow> exn + ustr list" where
  "load_dates_from_file w =
     (case dates_file w of
        None \<Rightarrow> Inl ScraperError
      | Some ls \<Rightarrow> Inr (map strip (filter (\<lambda>l. strip l \<noteq> []) ls)))"

text \<open>The loop of \<open>scrape_predefined_dates\<close> over the dates, \<open>success_count\<close> carried along.\<close>

fun scrape_loop :: "ScraperConfig \<Rightarrow> ustr list \<Rightarrow> nat \<Rightarrow> world \<Rightarrow> (exn + nat) \<times> world" where
  "scrape_loop cfg [] success_count w = (Inr success_count, w)"
| "scrape_loop cfg (date_str # dates) success_count w =
     (case process_date cfg date_str w of
        (ok, w1) \<Rightarrow>
          (case sleep (delay cfg) w1 of
             (Inl e, w2) \<Rightarrow> (Inl e, w2)
           | (Inr _, w2) \<Rightarrow>
               scrape_loop cfg dates (if ok then success_count + 1 else success_count) w2))"

definition scrape_predefined_dates :: "ScraperConfig \<Rightarrow> world \<Rightarrow> (exn + nat \<times> nat) \<times> world" where
  "scrape_predefined_dates cfg w =
     (case load_dates_from_file w of
        Inl e \<Rightarrow> (Inl ScraperError, w)
      | Inr dates \<Rightarrow>
          if dates = [] then (Inr (0, 0), w)
          else (case scrape_loop cfg dates 0 w of
                  (Inl e, w') \<Rightarrow> (Inl ScraperError, w')
                | (Inr success_count, w') \<Rightarrow> (Inr (success_count, length dates), w')))"


section \<open>Notions of the specification\<close>

text \<open>A failure that \<open>download_pdf\<close> answers with another attempt: a transport error, or a
  status that is neither 200 nor 404.\<close>

definition retryable :: "response \<Rightarrow> bool" where
  "retryable r =
     (case r of Http code body \<Rightarrow> code \<noteq> 200 \<and> code \<noteq> 404 | RequestException \<Rightarrow> True)"

text \<open>
  What \<open>process_date\<close> returns for each date of a batch, in order, each date run in
  the world that the dates before it and the sleep after each of them have left.
\<close>

fun outcomes :: "ScraperConfig \<Rightarrow> ustr list \<Rightarrow> world \<Rightarrow> bool list" where
  "outcomes cfg [] w = []"
| "outcomes cfg (date_str # dates) w =
     fst (process_date cfg date_str w) #
     outcomes cfg dates (snd (sleep (delay cfg) (snd (process_date cfg date_str w))))"

text \<open>The URLs requested in a trace, in order.\<close>

fun requested :: "event list \<Rightarrow> ustr list" where
  "requested [] = []"
| "requested (Get url # es) = url # requested es"
| "requested (e # es) = requested es"

text \<open>No match of the pattern starts inside \<open>pre\<close>, in the text \<open>pre @ rest\<close>.\<close>

fun no_match_in :: "item list \<Rightarrow> ustr \<Rightarrow> ustr \<Rightarrow> bool" where
  "no_match_in pat [] rest = True"
| "no_match_in pat (c # cs) rest =
     (match_items pat (c # cs @ rest) = None \<and> no_match_in pat cs rest)"


section \<open>Concrete inputs\<close>

text \<open>Tables that know no digit and no letter beyond ASCII.\<close>

definition ascii_db :: unicode_db where
  "ascii_db = \<lparr>decimal = (\<lambda>c. False), alnum = (\<lambda>c. False), template = (\<lambda>r. None)\<rparr>"

text \<open>A page footer as the header pattern expects it: the year as three digits, a blank
  and one digit, then \<open>Chair\<close>.\<close>

definition dated_header :: ustr where
  "dated_header = u ''January 31, 202 4 Chair Powell's Press Conference FINAL''"

text \<open>A world with no files, no date file and a host that cannot be reached.\<close>

definition offline :: world where
  "offline = \<lparr>files = Map.empty, trace = [], net = (\<lambda>n url. RequestException),
     fault = (\<lambda>p. NoFault), dates_file = None\<rparr>"

text \<open>Worlds whose host answers every request with status 500, or with status 404.\<close>

definition busy :: world where
  "busy = offline\<lparr>net := (\<lambda>n url. Http 500 Unreadable)\<rparr>"

definition missing :: world where
  "missing = offline\<lparr>net := (\<lambda>n url. Http 404 Unreadable)\<rparr>"

text \<open>A world whose host answers every request with a two-page document.\<close>

definition serving :: world where
  "serving = offline\<lparr>net := (\<lambda>n url.
     Http 200 (Pages [PageText (u ''Page 1 of 2''), PageText (u ''a  b'')]))\<rparr>"


text \<open>
  A batch of five dates (and a blank line in the date file): the second is already saved,
  the first and the last are served, the third is not found, and the host cannot be
  reached for the fourth.
\<close>

definition batch :: world where
  "batch = \<lparr>
     files = [text_path DEFAULT_CONFIG (u ''20240320'') \<mapsto> u ''done''],
     trace = [],
     net = (\<lambda>n url.
       if url = pdf_url DEFAULT_CONFIG (u ''20240131'') \<or> url = pdf_url DEFAULT_CONFIG (u ''20240501'')
       then Http 200 (Pages [PageText (u ''text'')])
       else if url = pdf_url DEFAULT_CONFIG (u ''20240612'') then Http 404 Unreadable
       else RequestException),
     fault = (\<lambda>p. NoFault),
     dates_file = Some [u ''20240131'', u ''20240320'', [], u ''20240612 '', u ''20240731'',
                        u ''20240501'']\<rparr>"


section \<open>Properties\<close>

subsection \<open>Stripping\<close>

lemma all_dropWhile: "(\<forall>x \<in> set (dropWhile P s). P x) \<longleftrightarrow> (\<forall>x \<in> set s. P x)"
  by (induction s) auto

lemma strip_eq_Nil_iff: "strip s = [] \<longleftrightarrow> (\<forall>c \<in> set s. is_space c)"
  by (simp add: strip_def all_dropWhile)

lemma strip_blank: "(\<forall>c \<in> set s. is_space c) \<Longrightarrow> strip s = []"
  by (simp add: strip_eq_Nil_iff)


subsection \<open>Saving\<close>

text \<open>
  C10: for every date and every content that is empty or consists of whitespace only,
  \<open>save_text_file\<close> returns \<open>False\<close> and leaves the world as it was: no file is created
  or modified and no write is attempted.
\<close>

theorem save_text_file_blank:
  "\<forall>c \<in> set text_content. is_space c \<Longrightarrow>
     save_text_file cfg date_str text_content w = (False, w)"
  by (simp add: save_text_file_def strip_blank)

theorem save_text_file_blank_witness:
  "list_all is_space (u '' '' @ [10, 9]) \<and>
   save_text_file DEFAULT_CONFIG (u ''20240131'') (u '' '' @ [10, 9]) offline = (False, offline)"
  using save_text_file_blank [of "u '' '' @ [10, 9]" DEFAULT_CONFIG "u ''20240131''" offline]
  by (simp add: u_def is_space_def)

subsection \<open>Downloading\<close>

lemma n_gets_app [simp]:
  "n_gets (w\<lparr>trace := trace w @ t\<rparr>) = n_gets w + length (filter is_get t)"
  by (simp add: n_gets_def)

lemma download_attempts_exhausted:
  "\<lbrakk>0 \<le> retry_delay cfg; int attempt + int k = max_retries cfg;
    \<forall>j < k. retryable (net w (n_gets w + j) url)\<rbrakk> \<Longrightarrow>
   \<exists>t. download_attempts cfg url attempt k w = (Inr None, w\<lparr>trace := trace w @ t\<rparr>) \<and>
       filter is_get t = replicate k (Get url)"
proof (induction k arbitrary: attempt w)
  case 0
  show ?case by (rule exI [of _ "[]"]) simp
next
  case (Suc k)
  let ?w1 = "w\<lparr>trace := trace w @ [Get url]\<rparr>"
  have r0: "retryable (net w (n_gets w) url)" using Suc.prems(3) by force
  have rest: "\<forall>j < k. retryable (net w (Suc (n_gets w) + j) url)"
    using Suc.prems(3) by (metis Suc_less_eq add_Suc_shift)
  show ?case
  proof (cases "net w (n_gets w) url")
    case (Http code body)
    with r0 have c: "code \<noteq> 200" "code \<noteq> 404" by (simp_all add: retryable_def)
    have "\<exists>t. download_attempts cfg url (Suc attempt) k ?w1 = (Inr None, ?w1\<lparr>trace := trace ?w1 @ t\<rparr>) \<and>
       filter is_get t = replicate k (Get url)"
      using Suc.prems(1,2) rest by (intro Suc.IH) auto
    then obtain t where t: "download_attempts cfg url (Suc attempt) k ?w1 = (Inr None, ?w1\<lparr>trace := trace ?w1 @ t\<rparr>)"
      "filter is_get t = replicate k (Get url)" by blast
    show ?thesis
      using t by (intro exI [of _ "Get url # t"]) (simp add: http_get_def Http c)
  next
    case RequestException
    show ?thesis
    proof (cases k)
      case 0
      then have "\<not> int attempt < max_retries cfg - 1" using Suc.prems(2) by simp
      then show ?thesis
        by (intro exI [of _ "[Get url]"]) (simp add: http_get_def RequestException 0)
    next
      case (Suc k')
      let ?w2 = "?w1\<lparr>trace := trace ?w1 @ [Sleep (retry_delay cfg)]\<rparr>"
      have lt: "int attempt < max_retries cfg - 1" using Suc.prems(2) Suc by simp
      have "\<exists>t. download_attempts cfg url (Suc attempt) k ?w2 = (Inr None, ?w2\<lparr>trace := trace ?w2 @ t\<rparr>) \<and>
         filter is_get t = replicate k (Get url)"
        using Suc.prems(1,2) rest by (intro Suc.IH) auto
      then obtain t where t: "download_attempts cfg url (Suc attempt) k ?w2 = (Inr None, ?w2\<lparr>trace := trace ?w2 @ t\<rparr>)"
        "filter is_get t = replicate k (Get url)" by blast
      show ?thesis
        using t Suc.prems(1)
        by (intro exI [of _ "Get url # Sleep (retry_delay cfg) # t"])
           (simp add: http_get_def RequestException lt sleep_def not_less)
    qed
  qed
qed

lemma download_attempts_no_body:
  "\<forall>j < k. retryable (net w (n_gets w + j) url) \<Longrightarrow>
   fst (download_attempts cfg url attempt k w) \<noteq> Inr (Some body)"
proof (induction k arbitrary: attempt w)
  case 0
  show ?case by simp
next
  case (Suc k)
  have r0: "retryable (net w (n_gets w) url)" using Suc.prems by force
  have rest: "\<forall>j < k. retryable (net w (Suc (n_gets w) + j) url)"
    using Suc.prems by (metis Suc_less_eq add_Suc_shift)
  show ?case
  proof (cases "net w (n_gets w) url")
    case (Http code b)
    with r0 have c: "code \<noteq> 200" "code \<noteq> 404" by (simp_all add: retryable_def)
    show ?thesis using Suc.IH [of "w\<lparr>trace := trace w @ [Get url]\<rparr>" "Suc attempt"] rest
      by (simp add: http_get_def Http c)
  next
    case RequestException
    show ?thesis
      using Suc.IH [of "w\<lparr>trace := trace w @ [Get url, Sleep (retry_delay cfg)]\<rparr>" "Suc attempt"] rest
      by (simp add: http_get_def RequestException sleep_def)
  qed
qed

text \<open>
  C3: if every attempt meets a retryable failure (a transport error, or a status other
  than 200 and 404), \<open>download_pdf\<close> issues exactly \<open>max_retries\<close> GET requests for the
  date's URL and returns \<open>None\<close>, its result for an exhausted budget; if the first attempt
  is answered with 404, it issues exactly one request and returns \<open>None\<close> at once. The
  retry delay is taken to be one that \<open>time.sleep\<close> accepts.
\<close>

theorem download_pdf_retry_termination:
  "(0 \<le> retry_delay cfg \<longrightarrow>
    (\<forall>j < nat (max_retries cfg). retryable (net w (n_gets w + j) (pdf_url cfg date_str))) \<longrightarrow>
      fst (download_pdf cfg date_str w) = Inr None \<and>
      filter is_get (trace (snd (download_pdf cfg date_str w))) =
        filter is_get (trace w) @ replicate (nat (max_retries cfg)) (Get (pdf_url cfg date_str))) \<and>
   (0 < max_retries cfg \<longrightarrow> net w (n_gets w) (pdf_url cfg date_str) = Http 404 body \<longrightarrow>
      download_pdf cfg date_str w =
        (Inr None, w\<lparr>trace := trace w @ [Get (pdf_url cfg date_str)]\<rparr>))"
proof (intro conjI impI)
  assume a: "0 \<le> retry_delay cfg"
    "\<forall>j < nat (max_retries cfg). retryable (net w (n_gets w + j) (pdf_url cfg date_str))"
  have "\<exists>t. download_pdf cfg date_str w = (Inr None, w\<lparr>trace := trace w @ t\<rparr>) \<and>
         filter is_get t = replicate (nat (max_retries cfg)) (Get (pdf_url cfg date_str))"
  proof (cases "0 \<le> max_retries cfg")
    case True
    then have "int 0 + int (nat (max_retries cfg)) = max_retries cfg" by simp
    from download_attempts_exhausted [OF a(1) this a(2)] show ?thesis
      unfolding download_pdf_def .
  next
    case False
    then show ?thesis by (intro exI [of _ "[]"]) (simp add: download_pdf_def)
  qed
  then obtain t where
    t: "download_pdf cfg date_str w = (Inr None, w\<lparr>trace := trace w @ t\<rparr>)"
       "filter is_get t = replicate (nat (max_retries cfg)) (Get (pdf_url cfg date_str))"
    by blast
  show "fst (download_pdf cfg date_str w) = Inr None" by (simp add: t)
  show "filter is_get (trace (snd (download_pdf cfg date_str w))) =
        filter is_get (trace w) @ replicate (nat (max_retries cfg)) (Get (pdf_url cfg date_str))"
    by (simp add: t)
next
  assume "0 < max_retries cfg" "net w (n_gets w) (pdf_url cfg date_str) = Http 404 body"
  moreover from this obtain k where "nat (max_retries cfg) = Suc k"
    by (metis Suc_pred' zero_less_nat_eq)
  ultimately show "download_pdf cfg date_str w =
        (Inr None, w\<lparr>trace := trace w @ [Get (pdf_url cfg date_str)]\<rparr>)"
    by (simp add: download_pdf_def http_get_def)
qed

theorem download_pdf_retry_termination_witness:
  "fst (download_pdf DEFAULT_CONFIG (u ''20240131'') busy) = Inr None \<and>
   filter is_get (trace (snd (download_pdf DEFAULT_CONFIG (u ''20240131'') busy))) =
     replicate 3 (Get (pdf_url DEFAULT_CONFIG (u ''20240131''))) \<and>
   fst (download_pdf DEFAULT_CONFIG (u ''20240131'') offline) = Inr None \<and>
   filter is_get (trace (snd (download_pdf DEFAULT_CONFIG (u ''20240131'') offline))) =
     replicate 3 (Get (pdf_url DEFAULT_CONFIG (u ''20240131''))) \<and>
   download_pdf DEFAULT_CONFIG (u ''20240131'') missing =
     (Inr None, missing\<lparr>trace := [Get (pdf_url DEFAULT_CONFIG (u ''20240131''))]\<rparr>)"
  using download_pdf_retry_termination [of DEFAULT_CONFIG busy "u ''20240131''" Unreadable]
    download_pdf_retry_termination [of DEFAULT_CONFIG offline "u ''20240131''" Unreadable]
    download_pdf_retry_termination [of DEFAULT_CONFIG missing "u ''20240131''" Unreadable]
  by (simp add: DEFAULT_CONFIG_def busy_def missing_def offline_def retryable_def n_gets_def)

text \<open>
  C8: after a retryable failure that is not the last attempt, \<open>download_pdf\<close> sleeps
  \<open>retry_delay\<close> before the next request. Evaluated with the default configuration: a
  host that answers 500 every time is asked three times with no sleep in between, while a
  host that cannot be reached is asked three times with a sleep of 2 after the first and
  the second failure.
\<close>

theorem download_pdf_status_retry_without_sleep:
  "trace (snd (download_pdf DEFAULT_CONFIG (u ''20240131'') busy)) =
     [Get (pdf_url DEFAULT_CONFIG (u ''20240131'')), Get (pdf_url DEFAULT_CONFIG (u ''20240131'')),
      Get (pdf_url DEFAULT_CONFIG (u ''20240131''))] \<and>
   trace (snd (download_pdf DEFAULT_CONFIG (u ''20240131'') offline)) =
     [Get (pdf_url DEFAULT_CONFIG (u ''20240131'')), Sleep 2,
      Get (pdf_url DEFAULT_CONFIG (u ''20240131'')), Sleep 2,
      Get (pdf_url DEFAULT_CONFIG (u ''20240131''))]"
  by (simp add: download_pdf_def DEFAULT_CONFIG_def busy_def offline_def http_get_def sleep_def
      n_gets_def eval_nat_numeral)

subsection \<open>Processing one date\<close>

lemma dropWhile_hd: "dropWhile P s \<noteq> [] \<Longrightarrow> \<not> P (hd (dropWhile P s))"
  by (induction s) auto

lemma strip_idem: "strip (strip s) = strip s"
proof -
  define a where "a = dropWhile is_space s"
  define b where "b = dropWhile is_space (rev a)"
  have s: "strip s = rev b" by (simp add: strip_def a_def b_def)
  have "dropWhile is_space (rev b) = rev b"
  proof (cases "b = []")
    case True then show ?thesis by simp
  next
    case False
    then have "rev a \<noteq> []" by (auto simp: b_def)
    then have an: "a \<noteq> []" by simp
    then have h: "\<not> is_space (hd a)" unfolding a_def by (rule dropWhile_hd)
    obtain c where "rev a = c @ b" unfolding b_def
      by (metis takeWhile_dropWhile_id)
    then have "a = rev b @ rev c" by (metis rev_append rev_rev_ident)
    with False have "hd (rev b) = hd a" by simp
    with h False show ?thesis by (cases "rev b") auto
  qed
  moreover have "dropWhile is_space b = b" by (simp add: b_def)
  ultimately have "strip (rev b) = rev b" by (simp add: strip_def)
  then show ?thesis by (simp add: s)
qed

lemma download_attempts_world:
  "\<exists>t. snd (download_attempts cfg url attempt k w) = w\<lparr>trace := trace w @ t\<rparr> \<and>
       set t \<subseteq> {Get url, Sleep (retry_delay cfg)}"
proof (induction k arbitrary: attempt w)
  case 0
  show ?case by (rule exI [of _ "[]"]) simp
next
  case (Suc k)
  let ?w1 = "w\<lparr>trace := trace w @ [Get url]\<rparr>"
  let ?w2 = "w\<lparr>trace := trace w @ [Get url, Sleep (retry_delay cfg)]\<rparr>"
  obtain t1 where t1: "snd (download_attempts cfg url (Suc attempt) k ?w1) = ?w1\<lparr>trace := trace ?w1 @ t1\<rparr>"
    "set t1 \<subseteq> {Get url, Sleep (retry_delay cfg)}" using Suc.IH by blast
  obtain t2 where t2: "snd (download_attempts cfg url (Suc attempt) k ?w2) = ?w2\<lparr>trace := trace ?w2 @ t2\<rparr>"
    "set t2 \<subseteq> {Get url, Sleep (retry_delay cfg)}" using Suc.IH by blast
  show ?case
  proof (cases "net w (n_gets w) url")
    case (Http code body)
    consider "code = 200" | "code = 404" | "code \<noteq> 200" "code \<noteq> 404" by blast
    then show ?thesis
    proof cases
      case 1 then show ?thesis by (intro exI [of _ "[Get url]"]) (simp add: http_get_def Http)
    next
      case 2 then show ?thesis by (intro exI [of _ "[Get url]"]) (simp add: http_get_def Http)
    next
      case 3 then show ?thesis using t1
        by (intro exI [of _ "Get url # t1"]) (simp add: http_get_def Http)
    qed
  next
    case RequestException
    consider "\<not> int attempt < max_retries cfg - 1"
      | "int attempt < max_retries cfg - 1" "retry_delay cfg < 0"
      | "int attempt < max_retries cfg - 1" "\<not> retry_delay cfg < 0" by blast
    then show ?thesis
    proof cases
      case 1 then show ?thesis
        by (intro exI [of _ "[Get url]"]) (simp add: http_get_def RequestException)
    next
      case 2 then show ?thesis
        by (intro exI [of _ "[Get url]"]) (simp add: http_get_def RequestException sleep_def)
    next
      case 3 then show ?thesis using t2
        by (intro exI [of _ "Get url # Sleep (retry_delay cfg) # t2"])
           (simp add: http_get_def RequestException sleep_def)
    qed
  qed
qed

lemma download_pdf_world:
  "\<exists>t. snd (download_pdf cfg date_str w) = w\<lparr>trace := trace w @ t\<rparr> \<and>
       set t \<subseteq> {Get (pdf_url cfg date_str), Sleep (retry_delay cfg)}"
  unfolding download_pdf_def by (rule download_attempts_world)

lemma extract_stripped: "extract_text_from_pdf doc = Inr t \<Longrightarrow> strip t = t"
  by (auto simp: extract_text_from_pdf_def Let_def strip_idem split: pdf.splits if_splits)

lemma download_attempts_numeral:
  "download_attempts cfg url attempt (numeral n) w =
     (case http_get url w of
        (Http code body, w1) \<Rightarrow>
          if code = 200 then (Inr (Some body), w1)
          else if code = 404 then (Inr None, w1)
          else download_attempts cfg url (Suc attempt) (pred_numeral n) w1
      | (RequestException, w1) \<Rightarrow>
          if int attempt < max_retries cfg - 1 then
            (case sleep (retry_delay cfg) w1 of
               (Inl e, w2) \<Rightarrow> (Inl e, w2)
             | (Inr _, w2) \<Rightarrow> download_attempts cfg url (Suc attempt) (pred_numeral n) w2)
          else (Inr None, w1))"
  by (simp add: numeral_eq_Suc)

lemmas run_defs = DEFAULT_CONFIG_def offline_def download_pdf_def http_get_def sleep_def n_gets_def
  process_date_def save_text_file_def extract_text_from_pdf_def strip_def
  text_path_def pdf_url_def Let_def download_attempts_numeral

text \<open>
  C1 (as amended): for every date whose output file does not yet exist, whose download
  yields a document and whose extraction yields a non-empty text, and for which the file
  system takes the write, \<open>process_date\<close> writes to the date-derived path exactly the
  text that \<open>extract_text_from_pdf\<close> returned (the joined page texts, stripped) and returns
  \<open>True\<close>.
\<close>

theorem process_date_saves_extracted_text:
  assumes "files w (text_path cfg date_str) = None"
    and "download_pdf cfg date_str w = (Inr (Some pdf_content), w1)"
    and "extract_text_from_pdf pdf_content = Inr text_content"
    and "text_content \<noteq> []"
    and "fault w (text_path cfg date_str) = NoFault"
  shows "process_date cfg date_str w =
    (True, w1\<lparr>files := (files w1)(text_path cfg date_str \<mapsto> text_content),
              trace := trace w1 @ [Write (text_path cfg date_str)]\<rparr>)"
proof -
  obtain t where "snd (download_pdf cfg date_str w) = w\<lparr>trace := trace w @ t\<rparr>"
    using download_pdf_world by blast
  with assms(2) have "w1 = w\<lparr>trace := trace w @ t\<rparr>" by simp
  then have f: "fault w1 (text_path cfg date_str) = NoFault" using assms(5) by simp
  have s: "strip text_content \<noteq> []" using extract_stripped [OF assms(3)] assms(4) by simp
  show ?thesis
    using assms(1-4) f s by (simp add: process_date_def save_text_file_def Let_def)
qed

lemmas pat_defs = u_def lit_def plus_def star_def rep_def page_number_pattern_def date_items_def
  chair_items_def header_pattern_def transcript_pattern_def transcript_with_date_pattern_def
  whitespace_pattern_def

lemmas cls_defs = is_alpha_def is_space_def is_digit_def is_possessive_def is_word_def

theorem process_date_saves_extracted_text_witness:
  "process_date DEFAULT_CONFIG (u ''20240131'') serving =
    (True, serving\<lparr>files := [text_path DEFAULT_CONFIG (u ''20240131'') \<mapsto>
                                 u ''Page 1 of 2'' @ 10 # u ''a  b''],
      trace := [Get (pdf_url DEFAULT_CONFIG (u ''20240131'')),
                Write (text_path DEFAULT_CONFIG (u ''20240131''))]\<rparr>)"
  using process_date_saves_extracted_text [of serving DEFAULT_CONFIG "u ''20240131''"
      "Pages [PageText (u ''Page 1 of 2''), PageText (u ''a  b'')]"
      "serving\<lparr>trace := [Get (pdf_url DEFAULT_CONFIG (u ''20240131''))]\<rparr>"
      "u ''Page 1 of 2'' @ 10 # u ''a  b''"]
  by (simp add: serving_def run_defs u_def is_space_def)

text \<open>
  The claim as stated fails: for the two-page document the file holds the raw joined text
  \<open>Page 1 of 2\<close>, newline, \<open>a  b\<close>, while the cleaner maps that text to \<open>a b\<close>.
\<close>

theorem process_date_saves_cleaned_text_counterexample:
  "files (snd (process_date DEFAULT_CONFIG (u ''20240131'') serving))
     (text_path DEFAULT_CONFIG (u ''20240131'')) = Some (u ''Page 1 of 2'' @ 10 # u ''a  b'') \<and>
   clean_extracted_text ascii_db [] (u ''Page 1 of 2'' @ 10 # u ''a  b'') = Inr (u ''a b'')"
  by (simp add: serving_def run_defs clean_extracted_text_def structural_steps_def pat_defs cls_defs
      ascii_db_def)

lemma process_date_not_found:
  "\<lbrakk>files w (text_path cfg date_str) = None; 0 < max_retries cfg;
    net w (n_gets w) (pdf_url cfg date_str) = Http 404 body\<rbrakk> \<Longrightarrow>
   process_date cfg date_str w = (False, w\<lparr>trace := trace w @ [Get (pdf_url cfg date_str)]\<rparr>)"
proof -
  assume a: "files w (text_path cfg date_str) = None" "0 < max_retries cfg"
    "net w (n_gets w) (pdf_url cfg date_str) = Http 404 body"
  obtain k where "nat (max_retries cfg) = Suc k"
    using a(2) by (metis Suc_pred' zero_less_nat_eq)
  then have "download_pdf cfg date_str w =
      (Inr None, w\<lparr>trace := trace w @ [Get (pdf_url cfg date_str)]\<rparr>)"
    using a(3) by (simp add: download_pdf_def http_get_def)
  then show ?thesis using a(1) by (simp add: process_date_def)
qed

lemma process_date_exhausted:
  assumes "files w (text_path cfg date_str) = None"
    and "\<forall>j < nat (max_retries cfg). retryable (net w (n_gets w + j) (pdf_url cfg date_str))"
  shows "fst (process_date cfg date_str w) = False \<and>
         files (snd (process_date cfg date_str w)) = files w"
proof -
  obtain r w1 where d: "download_pdf cfg date_str w = (r, w1)" by (cases "download_pdf cfg date_str w")
  obtain t where "snd (download_pdf cfg date_str w) = w\<lparr>trace := trace w @ t\<rparr>"
    using download_pdf_world by blast
  with d have w1: "files w1 = files w" by simp
  have "fst (download_pdf cfg date_str w) \<noteq> Inr (Some body)" for body
    unfolding download_pdf_def using assms(2) by (rule download_attempts_no_body)
  with d have "r \<noteq> Inr (Some body)" for body by simp
  then have "(\<exists>e. r = Inl e) \<or> r = Inr None"
  proof (cases r)
    case (Inr b)
    assume "\<And>body. r \<noteq> Inr (Some body)"
    with Inr show ?thesis by (cases b) auto
  qed auto
  then show ?thesis using assms(1) d w1 by (auto simp: process_date_def)
qed

text \<open>
  C7 (as amended): \<open>process_date\<close> returns a boolean. For a date with no output file,
  when the host answers the first request with 404, it issues that one request, writes
  nothing and returns \<open>False\<close>; when every attempt meets a retryable failure it returns
  \<open>False\<close> as well and leaves the files as they are. The result tells success (saved or
  already there) from failure and nothing more.
\<close>

theorem process_date_fetch_failures_return_False:
  "files w (text_path cfg date_str) = None \<longrightarrow>
     (0 < max_retries cfg \<longrightarrow> net w (n_gets w) (pdf_url cfg date_str) = Http 404 body \<longrightarrow>
        process_date cfg date_str w =
          (False, w\<lparr>trace := trace w @ [Get (pdf_url cfg date_str)]\<rparr>)) \<and>
     ((\<forall>j < nat (max_retries cfg). retryable (net w (n_gets w + j) (pdf_url cfg date_str))) \<longrightarrow>
        fst (process_date cfg date_str w) = False \<and>
        files (snd (process_date cfg date_str w)) = files w)"
  using process_date_not_found process_date_exhausted by blast

theorem process_date_fetch_failures_return_False_witness:
  "process_date DEFAULT_CONFIG (u ''20240131'') missing =
     (False, missing\<lparr>trace := [Get (pdf_url DEFAULT_CONFIG (u ''20240131''))]\<rparr>) \<and>
   fst (process_date DEFAULT_CONFIG (u ''20240131'') busy) = False \<and>
   files (snd (process_date DEFAULT_CONFIG (u ''20240131'') busy)) = Map.empty"
  using process_date_fetch_failures_return_False [of missing DEFAULT_CONFIG "u ''20240131''" Unreadable]
    process_date_fetch_failures_return_False [of busy DEFAULT_CONFIG "u ''20240131''" Unreadable]
  by (simp add: DEFAULT_CONFIG_def busy_def missing_def offline_def retryable_def n_gets_def)

text \<open>
  The claim as stated fails: a host that answers 404, a host that answers 500 and a host
  that cannot be reached all lead to the same result \<open>False\<close>.
\<close>

theorem process_date_not_found_distinguished_counterexample:
  "fst (process_date DEFAULT_CONFIG (u ''20240131'') missing) = False \<and>
   fst (process_date DEFAULT_CONFIG (u ''20240131'') busy) = False \<and>
   fst (process_date DEFAULT_CONFIG (u ''20240131'') offline) = False"
  by (simp add: busy_def missing_def run_defs)

subsection \<open>Extraction and saving\<close>

lemma foldl_add_page:
  "foldl add_page acc ps = acc @ [t. PageText t \<leftarrow> ps, t \<noteq> []]"
proof (induction ps arbitrary: acc)
  case Nil
  show ?case by simp
next
  case (Cons p ps)
  show ?case by (cases p) (simp_all add: Cons.IH)
qed

lemma no_text_iff:
  "[t. PageText t \<leftarrow> ps, t \<noteq> []] = [] \<longleftrightarrow> \<not> (\<exists>t. PageText t \<in> set ps \<and> t \<noteq> [])"
proof (induction ps)
  case Nil
  show ?case by simp
next
  case (Cons p ps)
  then show ?case by (cases p) auto
qed

text \<open>
  C4 (as amended): for every document in which at least one page yields non-empty text,
  \<open>extract_text_from_pdf\<close> returns the non-empty page texts in page order, joined by
  newlines and with the whitespace at both ends of the joined text stripped; pages whose
  extraction raises or yields nothing are left out. For every document in which no page
  yields non-empty text it raises \<open>ScraperError\<close>. A page that fails never aborts the
  document.
\<close>

theorem extract_text_from_pdf_pages:
  "extract_text_from_pdf (Pages ps) =
     (if \<exists>t. PageText t \<in> set ps \<and> t \<noteq> []
      then Inr (strip (join_nl [t. PageText t \<leftarrow> ps, t \<noteq> []]))
      else Inl ScraperError)"
  using no_text_iff [of ps] by (simp add: extract_text_from_pdf_def foldl_add_page)

text \<open>
  The claim as stated fails: the text returned is not exactly the page texts. The blank
  before \<open>a\<close> and after \<open>b\<close> is gone, and a document whose only text is one blank yields
  the empty text without raising.
\<close>

theorem extract_text_from_pdf_exact_counterexample:
  "extract_text_from_pdf (Pages [PageText (u '' a''), PageRaises, PageText (u ''b '')]) =
     Inr (u ''a'' @ 10 # u ''b'') \<and>
   extract_text_from_pdf (Pages [PageNone, PageText (u '' '')]) = Inr []"
  by (simp add: extract_text_from_pdf_def strip_def is_space_def u_def)




subsection \<open>The batch\<close>

lemma pdf_url_inj [simp]: "pdf_url cfg a = pdf_url cfg b \<longleftrightarrow> a = b"
  by (simp add: pdf_url_def)

lemma text_path_inj [simp]: "text_path cfg a = text_path cfg b \<longleftrightarrow> a = b"
  by (simp add: text_path_def)

lemma default_config_values:
  "delay DEFAULT_CONFIG = 1" "max_retries DEFAULT_CONFIG = 3" "retry_delay DEFAULT_CONFIG = 2"
  by (simp_all add: DEFAULT_CONFIG_def)

lemma requested_append [simp]: "requested (xs @ ys) = requested xs @ requested ys"
  by (induction xs rule: requested.induct) auto

lemma requested_same:
  "set t \<subseteq> {Get url, Sleep d, Write p} \<Longrightarrow> \<exists>k. requested t = replicate k url"
proof (induction t rule: requested.induct)
  case 1
  show ?case by simp
next
  case (2 url' es)
  then obtain k where "requested es = replicate k url" by auto
  moreover from 2 have "url' = url" by simp
  ultimately show ?case by (intro exI [of _ "Suc k"]) simp
qed auto

lemma save_text_file_world:
  "\<exists>F t. snd (save_text_file cfg date_str text_content w) = w\<lparr>files := F, trace := trace w @ t\<rparr> \<and>
         set t \<subseteq> {Write (text_path cfg date_str)}"
proof (cases "strip text_content = []")
  case True
  then show ?thesis
    by (intro exI [of _ "files w"] exI [of _ "[]"]) (simp add: save_text_file_def)
next
  case False
  then show ?thesis
  proof (cases "fault w (text_path cfg date_str)")
    case NoFault
    with False show ?thesis
      by (intro exI [of _ "(files w)(text_path cfg date_str \<mapsto> text_content)"]
          exI [of _ "[Write (text_path cfg date_str)]"]) (simp add: save_text_file_def Let_def)
  next
    case OpenFails
    with False show ?thesis
      by (intro exI [of _ "files w"] exI [of _ "[]"]) (simp add: save_text_file_def Let_def)
  next
    case (WriteFails n)
    with False show ?thesis
      by (intro exI [of _ "(files w)(text_path cfg date_str \<mapsto> take n text_content)"]
          exI [of _ "[Write (text_path cfg date_str)]"]) (simp add: save_text_file_def Let_def)
  qed
qed

lemma process_date_world:
  "\<exists>F t. snd (process_date cfg date_str w) = w\<lparr>files := F, trace := trace w @ t\<rparr> \<and>
         set t \<subseteq> {Get (pdf_url cfg date_str), Sleep (retry_delay cfg), Write (text_path cfg date_str)}"
proof -
  let ?S = "{Get (pdf_url cfg date_str), Sleep (retry_delay cfg), Write (text_path cfg date_str)}"
  obtain r w1 where d: "download_pdf cfg date_str w = (r, w1)"
    by (cases "download_pdf cfg date_str w")
  obtain t1 where "snd (download_pdf cfg date_str w) = w\<lparr>trace := trace w @ t1\<rparr>"
    and s1: "set t1 \<subseteq> {Get (pdf_url cfg date_str), Sleep (retry_delay cfg)}"
    using download_pdf_world by blast
  with d have w1: "w1 = w\<lparr>trace := trace w @ t1\<rparr>" by simp
  have stay: "\<exists>F t. w = w\<lparr>files := F, trace := trace w @ t\<rparr> \<and> set t \<subseteq> ?S"
    by (intro exI [of _ "files w"] exI [of _ "[]"]) simp
  have after: "\<exists>F t. w1 = w\<lparr>files := F, trace := trace w @ t\<rparr> \<and> set t \<subseteq> ?S"
    using s1 by (intro exI [of _ "files w"] exI [of _ t1]) (auto simp: w1)
  have saved: "\<exists>F t. snd (save_text_file cfg date_str tc w1) = w\<lparr>files := F, trace := trace w @ t\<rparr> \<and> set t \<subseteq> ?S" for tc
  proof -
    obtain F t2 where "snd (save_text_file cfg date_str tc w1) = w1\<lparr>files := F, trace := trace w1 @ t2\<rparr>"
      and "set t2 \<subseteq> {Write (text_path cfg date_str)}"
      using save_text_file_world by blast
    then show ?thesis using s1
      by (intro exI [of _ F] exI [of _ "t1 @ t2"]) (auto simp: w1)
  qed
  show ?thesis
    using stay after saved d
    by (auto simp: process_date_def split: sum.splits option.splits)
qed


lemma subseq_remdups_adj_replicate:
  "subseq (remdups_adj ys) zs \<Longrightarrow> subseq (remdups_adj (replicate k x @ ys)) (x # zs)"
proof (induction k)
  case 0
  then show ?case by (simp add: list_emb_Cons)
next
  case (Suc k)
  show ?case
  proof (cases "replicate k x @ ys")
    case Nil
    then show ?thesis by simp
  next
    case (Cons y ys')
    show ?thesis
    proof (cases "x = y")
      case True
      with Cons Suc show ?thesis by simp
    next
      case False
      with Cons have "k = 0" by (cases k) auto
      with Cons False Suc.prems show ?thesis by simp
    qed
  qed
qed

lemma count_list_0: "x \<notin> set xs \<Longrightarrow> count_list xs x = 0"
  by (induction xs) auto

lemma scrape_loop_run:
  assumes "0 \<le> delay cfg"
  shows "\<exists>F t. scrape_loop cfg dates n w =
           (Inr (n + length (filter id (outcomes cfg dates w))),
            w\<lparr>files := F, trace := trace w @ t\<rparr>) \<and>
         (delay cfg \<noteq> retry_delay cfg \<longrightarrow> count_list t (Sleep (delay cfg)) = length dates) \<and>
         subseq (remdups_adj (requested t)) (map (pdf_url cfg) dates) \<and>
         (dates = [] \<longrightarrow> t = []) \<and>
         (dates \<noteq> [] \<longrightarrow> last t = Sleep (delay cfg))"
proof (induction dates arbitrary: n w)
  case Nil
  show ?case by (intro exI [of _ "files w"] exI [of _ "[]"]) simp
next
  case (Cons d ds)
  let ?S = "{Get (pdf_url cfg d), Sleep (retry_delay cfg), Write (text_path cfg d)}"
  obtain ok w1 where p: "process_date cfg d w = (ok, w1)" by (cases "process_date cfg d w")
  obtain F1 t1 where "snd (process_date cfg d w) = w\<lparr>files := F1, trace := trace w @ t1\<rparr>"
    and s1: "set t1 \<subseteq> ?S"
    using process_date_world by blast
  with p have w1: "w1 = w\<lparr>files := F1, trace := trace w @ t1\<rparr>" by simp
  define w2 where "w2 = w1\<lparr>trace := trace w1 @ [Sleep (delay cfg)]\<rparr>"
  have sl: "sleep (delay cfg) w1 = (Inr (), w2)"
    using assms by (simp add: sleep_def w2_def not_less)
  define n' where "n' = (if ok then n + 1 else n)"
  obtain F t where run: "scrape_loop cfg ds n' w2 =
           (Inr (n' + length (filter id (outcomes cfg ds w2))),
            w2\<lparr>files := F, trace := trace w2 @ t\<rparr>)"
    and cnt: "delay cfg \<noteq> retry_delay cfg \<longrightarrow> count_list t (Sleep (delay cfg)) = length ds"
    and sub: "subseq (remdups_adj (requested t)) (map (pdf_url cfg) ds)"
    and emp: "ds = [] \<longrightarrow> t = []"
    and lst: "ds \<noteq> [] \<longrightarrow> last t = Sleep (delay cfg)"
    using Cons.IH [of n' w2] by blast
  let ?t = "t1 @ Sleep (delay cfg) # t"
  have 1: "scrape_loop cfg (d # ds) n w =
      (Inr (n + length (filter id (outcomes cfg (d # ds) w))),
       w\<lparr>files := F, trace := trace w @ ?t\<rparr>)"
    using p sl run by (simp add: n'_def w2_def w1)
  have 2: "delay cfg \<noteq> retry_delay cfg \<longrightarrow> count_list ?t (Sleep (delay cfg)) = length (d # ds)"
  proof
    assume ne: "delay cfg \<noteq> retry_delay cfg"
    then have "Sleep (delay cfg) \<notin> set t1" using s1 by auto
    then have "count_list t1 (Sleep (delay cfg)) = 0" by (rule count_list_0)
    with cnt ne show "count_list ?t (Sleep (delay cfg)) = length (d # ds)" by simp
  qed
  obtain k where "requested t1 = replicate k (pdf_url cfg d)"
    using requested_same [OF s1] by blast
  then have 3: "subseq (remdups_adj (requested ?t)) (map (pdf_url cfg) (d # ds))"
    using subseq_remdups_adj_replicate [OF sub] by simp
  have 4: "last ?t = Sleep (delay cfg)" using emp lst by (cases "ds = []") auto
  have 5: "d # ds = [] \<longrightarrow> ?t = []" by simp
  have 6: "d # ds \<noteq> [] \<longrightarrow> last ?t = Sleep (delay cfg)" using 4 by blast
  show ?case
    by (intro exI [of _ F] exI [of _ ?t] conjI 1 2 3 5 6)
qed


text \<open>
  C6: for every list of dates loaded from the date file, \<open>scrape_predefined_dates\<close>
  returns as success count the number of dates for which \<open>process_date\<close> returned
  \<open>True\<close> (saved, or already there) and as total count the number of dates; it requests
  the dates' URLs in the order of the list; and it sleeps \<open>delay\<close> once after every date,
  whatever the outcome, the last date included. So five dates of which three succeed, one
  is not found and one exhausts its retries give the counts 3 and 5 and five sleeps. The
  delay is taken to be one that \<open>time.sleep\<close> accepts, and the sleeps of the batch are
  told from those between retries by their length.
\<close>

theorem scrape_predefined_dates_batch:
  assumes "0 \<le> delay cfg" and "load_dates_from_file w = Inr dates"
  shows "\<exists>F t. scrape_predefined_dates cfg w =
           (Inr (length (filter id (outcomes cfg dates w)), length dates),
            w\<lparr>files := F, trace := trace w @ t\<rparr>) \<and>
         (delay cfg \<noteq> retry_delay cfg \<longrightarrow> count_list t (Sleep (delay cfg)) = length dates) \<and>
         subseq (remdups_adj (requested t)) (map (pdf_url cfg) dates) \<and>
         (dates \<noteq> [] \<longrightarrow> last t = Sleep (delay cfg))"
proof (cases "dates = []")
  case True
  with assms(2) show ?thesis
    by (intro exI [of _ "files w"] exI [of _ "[]"]) (simp add: scrape_predefined_dates_def)
next
  case False
  obtain F t where run: "scrape_loop cfg dates 0 w =
           (Inr (0 + length (filter id (outcomes cfg dates w))),
            w\<lparr>files := F, trace := trace w @ t\<rparr>)"
    and rest: "delay cfg \<noteq> retry_delay cfg \<longrightarrow> count_list t (Sleep (delay cfg)) = length dates"
      "subseq (remdups_adj (requested t)) (map (pdf_url cfg) dates)"
      "dates \<noteq> [] \<longrightarrow> last t = Sleep (delay cfg)"
    using scrape_loop_run [OF assms(1), of dates 0 w] by blast
  have "scrape_predefined_dates cfg w =
           (Inr (length (filter id (outcomes cfg dates w)), length dates),
            w\<lparr>files := F, trace := trace w @ t\<rparr>)"
    using assms(2) False run by (simp add: scrape_predefined_dates_def)
  with rest show ?thesis by blast
qed


theorem scrape_predefined_dates_batch_witness:
  "0 \<le> delay DEFAULT_CONFIG \<and>
   load_dates_from_file batch =
     Inr [u ''20240131'', u ''20240320'', u ''20240612'', u ''20240731'', u ''20240501''] \<and>
   outcomes DEFAULT_CONFIG
     [u ''20240131'', u ''20240320'', u ''20240612'', u ''20240731'', u ''20240501''] batch =
     [True, True, False, False, True] \<and>
   fst (scrape_predefined_dates DEFAULT_CONFIG batch) = Inr (3, 5) \<and>
   count_list (trace (snd (scrape_predefined_dates DEFAULT_CONFIG batch))) (Sleep 1) = 5 \<and>
   trace (snd (scrape_predefined_dates DEFAULT_CONFIG batch)) =
     [Get (pdf_url DEFAULT_CONFIG (u ''20240131'')), Write (text_path DEFAULT_CONFIG (u ''20240131'')),
      Sleep 1,
      Sleep 1,
      Get (pdf_url DEFAULT_CONFIG (u ''20240612'')),
      Sleep 1,
      Get (pdf_url DEFAULT_CONFIG (u ''20240731'')), Sleep 2,
      Get (pdf_url DEFAULT_CONFIG (u ''20240731'')), Sleep 2,
      Get (pdf_url DEFAULT_CONFIG (u ''20240731'')),
      Sleep 1,
      Get (pdf_url DEFAULT_CONFIG (u ''20240501'')), Write (text_path DEFAULT_CONFIG (u ''20240501'')),
      Sleep 1]"
  using scrape_predefined_dates_batch [of DEFAULT_CONFIG batch
      "[u ''20240131'', u ''20240320'', u ''20240612'', u ''20240731'', u ''20240501'']"]
  by (simp add: scrape_predefined_dates_def load_dates_from_file_def batch_def
      download_pdf_def http_get_def sleep_def n_gets_def
      process_date_def save_text_file_def extract_text_from_pdf_def strip_def
      Let_def download_attempts_numeral is_space_def u_def default_config_values)

subsection \<open>Cleaning\<close>

lemma backoff_Some: "backoff Some s lo m = (if lo \<le> m then Some (drop m s) else None)"
  by (cases m) auto

lemma match_items_Nil: "match_items [] = Some"
  by (rule ext) simp

lemma match_whitespace:
  "match_items whitespace_pattern s =
     (if s \<noteq> [] \<and> is_space (hd s) then Some (dropWhile is_space s) else None)"
proof (cases s)
  case Nil
  then show ?thesis by (simp add: whitespace_pattern_def plus_def match_items_Nil backoff_Some)
next
  case (Cons c cs)
  then show ?thesis
    by (simp add: whitespace_pattern_def plus_def match_items_Nil backoff_Some dropWhile_eq_drop)
qed

lemma collapse_Cons:
  "re_sub whitespace_pattern r (c # cs) =
     (if is_space c then r @ re_sub whitespace_pattern r (dropWhile is_space cs)
      else c # re_sub whitespace_pattern r cs)"
proof -
  have "length (dropWhile is_space cs) < Suc (length cs)"
    by (simp add: length_dropWhile_le less_Suc_eq_le)
  then show ?thesis by (simp add: match_whitespace)
qed

lemma collapse_head:
  "s = [] \<or> \<not> is_space (hd s) \<Longrightarrow>
   re_sub whitespace_pattern r s = [] \<or> \<not> is_space (hd (re_sub whitespace_pattern r s))"
  by (cases s) (auto simp add: collapse_Cons simp del: re_sub.simps(2))

lemma collapse_idem:
  "re_sub whitespace_pattern (u '' '') (re_sub whitespace_pattern (u '' '') s) =
   re_sub whitespace_pattern (u '' '') s"
proof (induction s rule: length_induct)
  case (1 s)
  let ?f = "re_sub whitespace_pattern (u '' '')"
  show ?case
  proof (cases s)
    case Nil
    then show ?thesis by simp
  next
    case (Cons c cs)
    show ?thesis
    proof (cases "is_space c")
      case False
      have "?f (?f cs) = ?f cs" using 1 Cons by simp
      with False Cons show ?thesis by (simp add: collapse_Cons del: re_sub.simps(2))
    next
      case True
      let ?d = "dropWhile is_space cs"
      have h: "?d = [] \<or> \<not> is_space (hd ?d)" using dropWhile_hd [of is_space cs] by blast
      have "?f ?d = [] \<or> \<not> is_space (hd (?f ?d))" using collapse_head [OF h] .
      then have dw: "dropWhile is_space (?f ?d) = ?f ?d" by (cases "?f ?d") auto
      have "length ?d < length s" using Cons by (simp add: length_dropWhile_le less_Suc_eq_le)
      then have ih: "?f (?f ?d) = ?f ?d" using 1 by blast
      have sp: "is_space 32" by (simp add: is_space_def)
      have "?f s = 32 # ?f ?d" using True Cons by (simp add: collapse_Cons u_def del: re_sub.simps(2))
      moreover have "?f (32 # ?f ?d) = 32 # ?f (dropWhile is_space (?f ?d))"
        using sp by (simp add: collapse_Cons u_def del: re_sub.simps(2))
      ultimately show ?thesis using dw ih by simp
    qed
  qed
qed

text \<open>
  C5 (as amended): for every input string, collapsing whitespace (step 5) twice yields the
  same result as collapsing it once, and so applying step 5 again to the output of steps
  1 to 5 changes nothing. The composition of steps 1 to 5 is not idempotent: a removal, or
  the collapse of a line break into a blank, can produce a boilerplate match that only a
  second application removes.
\<close>

theorem whitespace_collapse_idempotent:
  "re_sub whitespace_pattern (u '' '') (re_sub whitespace_pattern (u '' '') s) =
     re_sub whitespace_pattern (u '' '') s \<and>
   re_sub whitespace_pattern (u '' '') (structural_steps db t) = structural_steps db t"
proof
  show "re_sub whitespace_pattern (u '' '') (re_sub whitespace_pattern (u '' '') s) =
     re_sub whitespace_pattern (u '' '') s"
    by (rule collapse_idem)
next
  show "re_sub whitespace_pattern (u '' '') (structural_steps db t) = structural_steps db t"
    unfolding structural_steps_def by (rule collapse_idem)
qed

theorem whitespace_collapse_idempotent_witness:
  "re_sub whitespace_pattern (u '' '') (u ''a '' @ [10, 9] @ u ''b  c'') = u ''a b c'' \<and>
   re_sub whitespace_pattern (u '' '') (u ''a b c'') = u ''a b c'' \<and>
   structural_steps ascii_db (u ''Page 1 of 2'' @ 10 # u ''Hello   world'') = u '' Hello world'' \<and>
   re_sub whitespace_pattern (u '' '') (u '' Hello world'') = u '' Hello world''"
  using whitespace_collapse_idempotent [of "u ''a '' @ [10, 9] @ u ''b  c''" ascii_db
      "u ''Page 1 of 2'' @ 10 # u ''Hello   world''"]
  by (simp add: structural_steps_def pat_defs cls_defs)

text \<open>
  The claim as stated fails: removing \<open>Page 2 of 3\<close> from \<open>Page 1Page 2 of 3 of 4\<close> leaves
  \<open>Page 1 of 4\<close>, which a second application removes; and in \<open>Page\<close>, line break,
  \<open>1 of 2 Hello\<close> nothing matches until the line break has become a blank, so that the page
  marker goes only with the second application.
\<close>

theorem structural_steps_idempotent_counterexample:
  "structural_steps ascii_db (u ''Page 1Page 2 of 3 of 4'') = u ''Page 1 of 4'' \<and>
   structural_steps ascii_db (u ''Page 1 of 4'') = [] \<and>
   structural_steps ascii_db (u ''Page'' @ 10 # u ''1 of 2 Hello'') = u ''Page 1 of 2 Hello'' \<and>
   structural_steps ascii_db (u ''Page 1 of 2 Hello'') = u '' Hello''"
  by (simp add: structural_steps_def pat_defs cls_defs)

lemma re_sub_skip:
  "no_match_in pat pre rest \<Longrightarrow> re_sub pat repl (pre @ rest) = pre @ re_sub pat repl rest"
  by (induction pre) auto

lemma re_sub_hit:
  "match_items pat (h @ post) = Some post \<Longrightarrow> h \<noteq> [] \<Longrightarrow>
   re_sub pat repl (h @ post) = repl @ re_sub pat repl post"
  by (cases h) auto

lemma dated_header_match:
  "match_items (header_pattern db) (dated_header @ post) = Some post"
  by (simp add: dated_header_def pat_defs cls_defs)

text \<open>
  C2 (as amended): for every input text that contains the span
  \<open>January 31, 202 4 Chair Powell's Press Conference FINAL\<close> (the year as three digits,
  optional whitespace and one digit, followed by whitespace and \<open>Chair\<close>) and in which no
  header match starts before the span, the header-removal step removes that entire span
  and leaves the text before it as it is; and the cleaner maps \<open>Before\<close>, the span and
  \<open>after\<close>, each on its own line, to \<open>Before after\<close>.
\<close>

theorem header_removed:
  "(no_match_in (header_pattern db) pre (dated_header @ post) \<longrightarrow>
      re_sub (header_pattern db) [] (pre @ dated_header @ post) =
        pre @ re_sub (header_pattern db) [] post) \<and>
   clean_extracted_text db [] (u ''Before'' @ 10 # dated_header @ 10 # u ''after'') =
     Inr (u ''Before after'')"
proof (intro conjI impI)
  assume "no_match_in (header_pattern db) pre (dated_header @ post)"
  then have "re_sub (header_pattern db) [] (pre @ dated_header @ post) =
      pre @ re_sub (header_pattern db) [] (dated_header @ post)"
    by (rule re_sub_skip)
  also have "re_sub (header_pattern db) [] (dated_header @ post) =
      [] @ re_sub (header_pattern db) [] post"
    by (rule re_sub_hit [OF dated_header_match]) (simp add: dated_header_def u_def)
  finally show "re_sub (header_pattern db) [] (pre @ dated_header @ post) =
        pre @ re_sub (header_pattern db) [] post" by simp
next
  show "clean_extracted_text db [] (u ''Before'' @ 10 # dated_header @ 10 # u ''after'') =
     Inr (u ''Before after'')"
    by (simp add: clean_extracted_text_def structural_steps_def strip_def dated_header_def
        pat_defs cls_defs)
qed

theorem header_removed_witness:
  "no_match_in (header_pattern ascii_db) (u ''Before'' @ [10]) (dated_header @ 10 # u ''after'') \<and>
   re_sub (header_pattern ascii_db) [] (u ''Before'' @ [10] @ dated_header @ 10 # u ''after'') =
     u ''Before'' @ [10, 10] @ u ''after''"
  using header_removed [of ascii_db "u ''Before'' @ [10]" "10 # u ''after''"]
  by (simp add: dated_header_def pat_defs cls_defs)

text \<open>
  The claim as stated fails: in \<open>January 31, 2024 2 Chair ...\<close> the four digits of the year
  are followed by a blank and a fifth digit, which the pattern \<open>\d{3}\s*\d\s+Chair\<close> does
  not match; the header step and the whole cleaner leave the span in the text.
\<close>

theorem header_literal_counterexample:
  "re_sub (header_pattern ascii_db) []
     (u ''Before January 31, 2024 2 Chair Powell's Press Conference FINAL after'') =
     u ''Before January 31, 2024 2 Chair Powell's Press Conference FINAL after'' \<and>
   clean_extracted_text ascii_db []
     (u ''Before January 31, 2024 2 Chair Powell's Press Conference FINAL after'') =
     Inr (u ''Before January 31, 2024 2 Chair Powell's Press Conference FINAL after'')"
  by (simp add: clean_extracted_text_def structural_steps_def strip_def pat_defs cls_defs)

end
